theory Spec2Isabelle
  imports Main "HOL-Library.Sublist" "HOL-Library.AList"
begin

section \<open>Paths and strings\<close>

text \<open>
  A path is the list of its components below the root \<open>/\<close>: the model works with
  absolute, normalised POSIX paths in a file system without symbolic links, so that
  \<open>Path.resolve()\<close> is the identity. A string is the list of the bytes of its UTF-8
  encoding; searching for \<open>.\<close> or \<open>/\<close>, slicing at such a position, comparing and
  replacing substrings agree on bytes and on code points.

  \<open>str.lower()\<close> follows the Unicode case mappings of the Python library. It is not
  defined here: every function that calls it takes it as the parameter \<open>lw\<close>, and the
  theorems hold for every such function. \<open>str.strip()\<close> is the parameter \<open>strip\<close> of the
  loader of the exclusion file in the same way.
\<close>

type_synonym path = "string list"

text \<open>
  \<open>str.lower()\<close> on ASCII strings, where it maps \<open>A\<close>-\<open>Z\<close> to \<open>a\<close>-\<open>z\<close> and nothing
  else. It serves to evaluate the functions on concrete ASCII inputs only.
\<close>

definition ascii_lower_char :: "char \<Rightarrow> char" where
  "ascii_lower_char c =
     (case map_of (zip ''ABCDEFGHIJKLMNOPQRSTUVWXYZ'' ''abcdefghijklmnopqrstuvwxyz'') c of
        Some l \<Rightarrow> l
      | None \<Rightarrow> c)"

definition ascii_lower :: "string \<Rightarrow> string" where
  "ascii_lower s = map ascii_lower_char s"

text \<open>\<open>str.rfind(c)\<close>: the index of the last occurrence, \<open>None\<close> for Python's \<open>-1\<close>.\<close>

fun rfind_from :: "char \<Rightarrow> string \<Rightarrow> nat \<Rightarrow> nat option \<Rightarrow> nat option" where
  "rfind_from c [] i found = found"
| "rfind_from c (x # xs) i found = rfind_from c xs (Suc i) (if x = c then Some i else found)"

definition rfind :: "string \<Rightarrow> char \<Rightarrow> nat option" where
  "rfind s c = rfind_from c s 0 None"

text \<open>\<open>PurePath.name\<close>, \<open>PurePath.parent\<close>, \<open>PurePath.suffix\<close> and \<open>PurePath.stem\<close>.\<close>

definition path_name :: "path \<Rightarrow> string" where
  "path_name p = (if p = [] then [] else last p)"

definition path_parent :: "path \<Rightarrow> path" where
  "path_parent p = butlast p"

definition name_suffix :: "string \<Rightarrow> string" where
  "name_suffix nm =
     (case rfind nm (CHR ''.'') of
        None \<Rightarrow> []
      | Some i \<Rightarrow> if 0 < i \<and> Suc i < length nm then drop i nm else [])"

definition name_stem :: "string \<Rightarrow> string" where
  "name_stem nm =
     (case rfind nm (CHR ''.'') of
        None \<Rightarrow> nm
      | Some i \<Rightarrow> if 0 < i \<and> Suc i < length nm then take i nm else nm)"

definition path_suffix :: "path \<Rightarrow> string" where
  "path_suffix p = name_suffix (path_name p)"

definition path_stem :: "path \<Rightarrow> string" where
  "path_stem p = name_stem (path_name p)"

section \<open>The classifier\<close>

text \<open>\<open>self.categories\<close>: a dict, iterated in insertion order.\<close>

definition categories :: "(string \<times> string list) list" where
  "categories =
     [(''fotos'',
        [''.jpg'', ''.jpeg'', ''.png'', ''.gif'', ''.bmp'', ''.tiff'', ''.tif'',
         ''.webp'', ''.raw'', ''.cr2'', ''.nef'', ''.arw'', ''.dng'', ''.heic'', ''.heif'']),
      (''ebooks'',
        [''.pdf'', ''.epub'', ''.mobi'', ''.azw'', ''.azw3'', ''.fb2'', ''.lit'',
         ''.pdb'', ''.cbr'', ''.cbz'']),
      (''documents'',
        [''.txt'', ''.rtf'', ''.doc'', ''.docx'', ''.xls'', ''.xlsx'']),
      (''filmes'',
        [''.mp4'', ''.avi'', ''.mkv'', ''.mov'', ''.wmv'', ''.flv'', ''.webm'',
         ''.m4v'', ''.3gp'', ''.ogv'', ''.ts'', ''.m2ts'', ''.vob'', ''.iso'']),
      (''musicas'',
        [''.mp3'', ''.flac'', ''.wav'', ''.aac'', ''.ogg'', ''.wma'', ''.m4a'',
         ''.opus'', ''.ape'', ''.ac3'', ''.dts'', ''.aiff'']),
      (''outros'', [])]"

text \<open>The loop of \<open>categorize_file\<close> over \<open>self.categories.items()\<close>.\<close>

fun first_category :: "(string \<times> string list) list \<Rightarrow> string \<Rightarrow> string" where
  "first_category [] extension = ''outros''"
| "first_category ((category, extensions) # rest) extension =
     (if extension \<in> set extensions then category else first_category rest extension)"

definition categorize_file :: "(string \<Rightarrow> string) \<Rightarrow> path \<Rightarrow> string" where
  "categorize_file lw file_path =
     (let extension = lw (path_suffix file_path)
      in first_category categories extension)"

section \<open>Data model\<close>

text \<open>
  The exceptions the file-system calls raise. \<open>PermissionError\<close> and
  \<open>FileNotFoundError\<close> are subclasses of \<open>OSError\<close>; any other \<open>OSError\<close> is kept with
  its \<open>errno\<close>. \<open>Unexpected\<close> stands for an exception outside \<open>OSError\<close>.
\<close>

datatype oserror = PermissionError | FileNotFoundError | OSErrno nat

datatype exn = OSErr oserror | Unexpected

text \<open>
  The entries of \<open>self.errors\<close>. Each constructor is one of the source's message
  formats, with the values the f-string interpolates.
\<close>

datatype error_msg =
    ErrAccess path oserror
  | ErrProcess path exn
  | ErrScanDir path oserror
  | ErrExclusionLine string exn
  | ErrMkdirPermission path oserror
  | ErrMkdirSystem path oserror
  | ErrSourceMissing path
  | ErrNoWriteSource path
  | ErrNoWriteDest path
  | ErrPermission string oserror
  | ErrNotFound string oserror
  | ErrNoSpace string oserror
  | ErrNameTooLong string oserror
  | ErrSystem string oserror
  | ErrUnexpected string exn

record stat_result =
  st_size :: nat
  st_mtime :: nat
  st_ctime :: nat

text \<open>
  What the scanner observes of a non-directory entry: the outcome of \<open>is_file()\<close>
  (which re-raises the errors it does not ignore), the outcome of the later \<open>stat()\<close>
  in \<open>get_file_info\<close>, and the MD5 digest of the content (\<open>None\<close> when reading fails).
\<close>

record file_attrs =
  is_file_result :: "oserror + bool"
  stat_outcome :: "oserror + stat_result"
  md5 :: "string option"

text \<open>The tree the scanner walks, rooted at \<open>/\<close>; a directory lists its entries in order.\<close>

datatype node = File file_attrs | Dir "(string \<times> node) list"

text \<open>
  A \<open>file_info\<close> dict. \<open>path\<close> and \<open>parent_dir\<close> hold the paths whose \<open>str()\<close> the
  source stores; the key \<open>hash\<close> is absent (\<open>None\<close>) unless hashing was requested, and
  its value is \<open>None\<close> when hashing failed.
\<close>

record file_info =
  path :: path
  name :: string
  size_bytes :: nat
  modified :: nat
  created :: nat
  extension :: string
  parent_dir :: path
  hash :: "string option option"
  category :: string

record operation_stats_t =
  successful_operations :: nat
  failed_operations :: nat
  skipped_operations :: nat

text \<open>
  The attributes of a \<open>FileCataloger\<close>. \<open>catalog\<close> is a \<open>defaultdict(list)\<close> in
  insertion order, \<open>stats\<close> a \<open>Counter\<close> (a missing key counts 0).
\<close>

record cataloger =
  catalog :: "(string \<times> file_info list) list"
  stats :: "string \<Rightarrow> nat"
  errors :: "error_msg list"
  verbose :: bool
  exclude_paths :: "path list"
  folders_with_files :: "path set"
  operation_stats :: operation_stats_t

section \<open>Construction\<close>

text \<open>
  \<open>_load_folder_exclusions\<close>: \<open>exclusions_file\<close> is the lines of
  \<open>folder_exclusions.txt\<close> (\<open>None\<close> when the file does not exist), \<open>strip\<close> is
  \<open>str.strip()\<close> and \<open>resolve\<close> is \<open>Path(line).resolve()\<close>.
\<close>

fun load_lines :: "(string \<Rightarrow> string) \<Rightarrow> (string \<Rightarrow> exn + path) \<Rightarrow> cataloger \<Rightarrow> string list \<Rightarrow> cataloger" where
  "load_lines strip resolve st [] = st"
| "load_lines strip resolve st (l # ls) =
     (let line = strip l
      in if line \<noteq> [] \<and> \<not> prefix ''#'' line then
           (case resolve line of
              Inr abs_path \<Rightarrow>
                load_lines strip resolve (st\<lparr>exclude_paths := exclude_paths st @ [abs_path]\<rparr>) ls
            | Inl e \<Rightarrow>
                load_lines strip resolve (st\<lparr>errors := errors st @ [ErrExclusionLine line e]\<rparr>) ls)
         else load_lines strip resolve st ls)"

definition load_folder_exclusions ::
  "(string \<Rightarrow> string) \<Rightarrow> (string \<Rightarrow> exn + path) \<Rightarrow> string list option \<Rightarrow> cataloger \<Rightarrow> cataloger" where
  "load_folder_exclusions strip resolve exclusions_file st =
     (case exclusions_file of
        None \<Rightarrow> st
      | Some ls \<Rightarrow> load_lines strip resolve st ls)"

definition zero_operation_stats :: operation_stats_t where
  "zero_operation_stats =
     \<lparr>successful_operations = 0, failed_operations = 0, skipped_operations = 0\<rparr>"

text \<open>\<open>__init__\<close>, with the explicit exclusions already resolved.\<close>

definition init_cataloger ::
  "bool \<Rightarrow> path list \<Rightarrow> (string \<Rightarrow> string) \<Rightarrow> (string \<Rightarrow> exn + path) \<Rightarrow>
   string list option \<Rightarrow> cataloger" where
  "init_cataloger verbose_flag exclude strip exclusions_resolve exclusions_file =
     load_folder_exclusions strip exclusions_resolve exclusions_file
       \<lparr>catalog = [], stats = (\<lambda>k. 0), errors = [], verbose = verbose_flag,
        exclude_paths = exclude, folders_with_files = {},
        operation_stats = zero_operation_stats\<rparr>"

section \<open>The scanner\<close>

text \<open>\<open>get_file_info\<close>: the record (without category and hash), or the logged error.\<close>

definition get_file_info :: "(string \<Rightarrow> string) \<Rightarrow> cataloger \<Rightarrow> path \<Rightarrow> file_attrs \<Rightarrow> cataloger \<times> file_info option" where
  "get_file_info lw st file_path a =
     (case stat_outcome a of
        Inr s \<Rightarrow>
          (st, Some \<lparr>path = file_path, name = path_name file_path, size_bytes = st_size s,
                    modified = st_mtime s, created = st_ctime s,
                    extension = lw (path_suffix file_path),
                    parent_dir = path_parent file_path, hash = None, category = []\<rparr>)
      | Inl e \<Rightarrow> (st\<lparr>errors := errors st @ [ErrAccess file_path e]\<rparr>, None))"

definition get_file_hash :: "file_attrs \<Rightarrow> string option" where
  "get_file_hash a = md5 a"

text \<open>
  \<open>_is_path_excluded\<close>: \<open>relative_to\<close> succeeds exactly when the exclusion's
  components are a prefix of the path's.
\<close>

definition is_path_excluded :: "cataloger \<Rightarrow> path \<Rightarrow> bool" where
  "is_path_excluded st file_path =
     (if exclude_paths st = [] then False
      else list_ex (\<lambda>exclude_path. prefix exclude_path file_path) (exclude_paths st))"

text \<open>\<open>self.catalog[category].append(file_info)\<close> on the \<open>defaultdict\<close>.\<close>

definition catalog_append ::
  "(string \<times> file_info list) list \<Rightarrow> string \<Rightarrow> file_info \<Rightarrow> (string \<times> file_info list) list" where
  "catalog_append cat c fi =
     (case map_of cat c of
        None \<Rightarrow> cat @ [(c, [fi])]
      | Some fs \<Rightarrow> AList.update c (fs @ [fi]) cat)"

definition all_records :: "cataloger \<Rightarrow> file_info list" where
  "all_records st = concat (map snd (catalog st))"

text \<open>\<open>str(path)\<close>, \<open>str.replace(old, '')\<close> and the \<open>level\<close> of \<open>_get_files_with_depth\<close>.\<close>

definition path_str :: "path \<Rightarrow> string" where
  "path_str p = (if p = [] then ''/'' else concat (map (\<lambda>c. ''/'' @ c) p))"

function remove_all :: "string \<Rightarrow> string \<Rightarrow> string" where
  "remove_all old [] = []"
| "remove_all old (c # cs) =
     (if old \<noteq> [] \<and> prefix old (c # cs) then remove_all old (drop (length old) (c # cs))
      else c # remove_all old cs)"
  by pat_completeness auto
termination
  by (relation "measure (\<lambda>(old, s). length s)") auto

definition level_of :: "path \<Rightarrow> path \<Rightarrow> nat" where
  "level_of directory root =
     count_list (remove_all (path_str directory) (path_str root)) (CHR ''/'')"

fun is_dir :: "node \<Rightarrow> bool" where
  "is_dir (Dir es) = True"
| "is_dir (File a) = False"

fun is_file :: "node \<Rightarrow> oserror + bool" where
  "is_file (File a) = is_file_result a"
| "is_file (Dir es) = Inr False"

text \<open>\<open>Path.exists()\<close> and the entry behind a path.\<close>

fun lookup :: "node \<Rightarrow> path \<Rightarrow> node option" where
  "lookup t [] = Some t"
| "lookup (File a) (n # ns) = None"
| "lookup (Dir es) (n # ns) = (case map_of es n of None \<Rightarrow> None | Some t \<Rightarrow> lookup t ns)"

text \<open>
  A traversal is the list of the directories it lists, each with the paths it yields
  from that directory. \<open>rglob('*')\<close> lists every directory below its start and yields
  all their entries.
\<close>

fun rglob_walk :: "path \<Rightarrow> node \<Rightarrow> (path \<times> (path \<times> node) list) list"
  and rglob_entries :: "path \<Rightarrow> (string \<times> node) list \<Rightarrow> (path \<times> (path \<times> node) list) list" where
  "rglob_walk p (File a) = []"
| "rglob_walk p (Dir es) = (p, map (\<lambda>(n, t). (p @ [n], t)) es) # rglob_entries p es"
| "rglob_entries p [] = []"
| "rglob_entries p ((n, t) # es) = rglob_walk (p @ [n]) t @ rglob_entries p es"

text \<open>
  The loop of \<open>_get_files_with_depth\<close> over \<open>os.walk(directory)\<close>: an excluded \<open>root\<close>
  is listed, yields nothing and empties \<open>dirs\<close>; otherwise the non-directory entries
  are yielded and \<open>dirs\<close> is emptied when \<open>level >= max_depth\<close>.
\<close>

fun depth_walk :: "cataloger \<Rightarrow> path \<Rightarrow> int \<Rightarrow> path \<Rightarrow> node \<Rightarrow> (path \<times> (path \<times> node) list) list"
  and depth_entries ::
    "cataloger \<Rightarrow> path \<Rightarrow> int \<Rightarrow> path \<Rightarrow> (string \<times> node) list \<Rightarrow> (path \<times> (path \<times> node) list) list" where
  "depth_walk st directory max_depth root (File a) = []"
| "depth_walk st directory max_depth root (Dir es) =
     (if is_path_excluded st root then [(root, [])]
      else (root, map (\<lambda>(n, t). (root @ [n], t)) (filter (\<lambda>(n, t). \<not> is_dir t) es)) #
           (if int (level_of directory root) \<ge> max_depth then []
            else depth_entries st directory max_depth root es))"
| "depth_entries st directory max_depth root [] = []"
| "depth_entries st directory max_depth root ((n, t) # es) =
     depth_walk st directory max_depth (root @ [n]) t @ depth_entries st directory max_depth root es"

definition rglob :: "path \<Rightarrow> node \<Rightarrow> (path \<times> node) list" where
  "rglob directory t = concat (map snd (rglob_walk directory t))"

definition get_files_with_depth :: "cataloger \<Rightarrow> path \<Rightarrow> int \<Rightarrow> node \<Rightarrow> (path \<times> node) list" where
  "get_files_with_depth st directory max_depth t =
     concat (map snd (depth_walk st directory max_depth directory t))"

text \<open>
  The body of the loop of \<open>scan_directory\<close> for a path whose \<open>is_file()\<close> is true.
  \<open>target_extensions\<close> filters only when it is a non-empty set.
\<close>

definition scan_file :: "(string \<Rightarrow> string) \<Rightarrow> bool \<Rightarrow> string list option \<Rightarrow> cataloger \<Rightarrow> path \<Rightarrow> file_attrs \<Rightarrow> cataloger" where
  "scan_file lw include_hash target_extensions st file_path a =
     (if is_path_excluded st file_path then st
      else if (case target_extensions of
                 None \<Rightarrow> False
               | Some exts \<Rightarrow> exts \<noteq> [] \<and> lw (path_suffix file_path) \<notin> set exts) then st
      else
        (case get_file_info lw st file_path a of
           (st1, None) \<Rightarrow> st1
         | (st1, Some file_info0) \<Rightarrow>
             (let file_info1 =
                    (if include_hash then file_info0\<lparr>hash := Some (get_file_hash a)\<rparr>
                     else file_info0);
                  cat = categorize_file lw file_path;
                  file_info2 = file_info1\<lparr>category := cat\<rparr>
              in st1\<lparr>folders_with_files := insert (path_parent file_path) (folders_with_files st1),
                     catalog := catalog_append (catalog st1) cat file_info2,
                     stats := (\<lambda>k. stats st1 k
                                 + (if k = cat then 1 else 0)
                                 + (if k = ''total_files'' then 1 else 0)
                                 + (if k = ''total_size'' then size_bytes file_info2 else 0))\<rparr>)))"

text \<open>
  The loop \<open>for file_path in files\<close>. An exception of \<open>is_file()\<close> leaves the loop for
  the outer handler, which logs it and ends the scan of this directory.
\<close>

fun scan_files ::
  "(string \<Rightarrow> string) \<Rightarrow> bool \<Rightarrow> string list option \<Rightarrow> path \<Rightarrow> cataloger \<Rightarrow> (path \<times> node) list \<Rightarrow> cataloger" where
  "scan_files lw include_hash target_extensions directory st [] = st"
| "scan_files lw include_hash target_extensions directory st ((file_path, nd) # rest) =
     (case is_file nd of
        Inl e \<Rightarrow> st\<lparr>errors := errors st @ [ErrScanDir directory e]\<rparr>
      | Inr b \<Rightarrow>
          (case nd of
             File a \<Rightarrow>
               scan_files lw include_hash target_extensions directory
                 (if b then scan_file lw include_hash target_extensions st file_path a else st) rest
           | Dir es \<Rightarrow> scan_files lw include_hash target_extensions directory st rest))"

definition target_extensions_of :: "(string \<Rightarrow> string) \<Rightarrow> string option \<Rightarrow> string list option" where
  "target_extensions_of lw file_type_filter =
     (case file_type_filter of
        None \<Rightarrow> None
      | Some f \<Rightarrow>
          if f \<noteq> [] \<and> lw f \<in> set (map fst categories) then map_of categories (lw f)
          else None)"

text \<open>The value of the variable \<open>files\<close> of \<open>scan_directory\<close>.\<close>

definition scan_candidates :: "cataloger \<Rightarrow> path \<Rightarrow> int option \<Rightarrow> node \<Rightarrow> (path \<times> node) list" where
  "scan_candidates st directory max_depth t =
     (case max_depth of
        None \<Rightarrow> rglob directory t
      | Some d \<Rightarrow> get_files_with_depth st directory d t)"

text \<open>
  \<open>scan_directory\<close>. A missing directory is reported on standard output only (which
  the model does not record) and the call returns.
\<close>

definition scan_directory ::
  "(string \<Rightarrow> string) \<Rightarrow> cataloger \<Rightarrow> node \<Rightarrow> path \<Rightarrow> bool \<Rightarrow> int option \<Rightarrow> string option \<Rightarrow> cataloger" where
  "scan_directory lw st fs directory include_hash max_depth file_type_filter =
     (case lookup fs directory of
        None \<Rightarrow> st
      | Some t \<Rightarrow>
          (let target_extensions = target_extensions_of lw file_type_filter;
               files = scan_candidates st directory max_depth t
           in scan_files lw include_hash target_extensions directory st files))"

fun scan_multiple_volumes ::
  "(string \<Rightarrow> string) \<Rightarrow> cataloger \<Rightarrow> node \<Rightarrow> path list \<Rightarrow> bool \<Rightarrow> int option \<Rightarrow> string option \<Rightarrow> cataloger" where
  "scan_multiple_volumes lw st fs [] include_hash max_depth file_type_filter = st"
| "scan_multiple_volumes lw st fs (volume_path # rest) include_hash max_depth file_type_filter =
     scan_multiple_volumes lw (scan_directory lw st fs volume_path include_hash max_depth file_type_filter)
       fs rest include_hash max_depth file_type_filter"

text \<open>The directories a scan of \<open>directory\<close> lists, in order.\<close>

definition visited_dirs :: "cataloger \<Rightarrow> node \<Rightarrow> path \<Rightarrow> int option \<Rightarrow> path list" where
  "visited_dirs st fs directory max_depth =
     (case lookup fs directory of
        None \<Rightarrow> []
      | Some t \<Rightarrow>
          (case max_depth of
             None \<Rightarrow> map fst (rglob_walk directory t)
           | Some d \<Rightarrow> map fst (depth_walk st directory d directory t)))"

section \<open>The file system seen by the organizer\<close>

text \<open>
  The organizer tests and changes single paths, so its file system is the finite table
  of the existing paths. \<open>readonly\<close> lists the directories for which
  \<open>os.access(p, os.W_OK)\<close> is false; \<open>mkdir_faults\<close> and \<open>io_faults\<close> are the failures the
  environment injects into a call (disk full, name too long, ...). A failed call
  leaves the table unchanged.
\<close>

datatype entry = FileEntry string | DirEntry

datatype fsop = OpCopy path path | OpMove path path

record filesystem =
  nodes :: "(path \<times> entry) list"
  readonly :: "path list"
  mkdir_faults :: "(path \<times> oserror) list"
  io_faults :: "(fsop \<times> exn) list"

definition path_exists :: "filesystem \<Rightarrow> path \<Rightarrow> bool" where
  "path_exists fs p = (map_of (nodes fs) p \<noteq> None)"

definition os_access_w :: "filesystem \<Rightarrow> path \<Rightarrow> bool" where
  "os_access_w fs p = (path_exists fs p \<and> p \<notin> set (readonly fs))"

fun is_file_entry :: "entry option \<Rightarrow> bool" where
  "is_file_entry (Some (FileEntry c)) = True"
| "is_file_entry e = False"

text \<open>\<open>Path.mkdir(parents=True, exist_ok=True)\<close>.\<close>

definition mkdir :: "filesystem \<Rightarrow> path \<Rightarrow> oserror + filesystem" where
  "mkdir fs p =
     (case map_of (mkdir_faults fs) p of
        Some e \<Rightarrow> Inl e
      | None \<Rightarrow>
          (case find (\<lambda>q. is_file_entry (map_of (nodes fs) q)) (prefixes p) of
             Some q \<Rightarrow> Inl (OSErrno (if q = p then 17 else 20))
           | None \<Rightarrow>
               (case find (\<lambda>q. \<not> path_exists fs q) (prefixes p) of
                  None \<Rightarrow> Inr fs
                | Some q \<Rightarrow>
                    if path_parent q \<in> set (readonly fs) then Inl PermissionError
                    else Inr (fs\<lparr>nodes := nodes fs @
                                 map (\<lambda>q. (q, DirEntry))
                                   (filter (\<lambda>q. \<not> path_exists fs q) (prefixes p))\<rparr>))))"

text \<open>\<open>shutil.copy2(src, dst)\<close>: into \<open>dst\<close> when it is a directory, over it otherwise.\<close>

definition copy2 :: "filesystem \<Rightarrow> path \<Rightarrow> path \<Rightarrow> exn + filesystem" where
  "copy2 fs src dst =
     (case map_of (io_faults fs) (OpCopy src dst) of
        Some e \<Rightarrow> Inl e
      | None \<Rightarrow>
          (case map_of (nodes fs) src of
             None \<Rightarrow> Inl (OSErr FileNotFoundError)
           | Some DirEntry \<Rightarrow> Inl (OSErr (OSErrno 21))
           | Some (FileEntry c) \<Rightarrow>
               (let target = (if map_of (nodes fs) dst = Some DirEntry
                              then dst @ [path_name src] else dst)
                in if map_of (nodes fs) target = Some DirEntry then Inl (OSErr (OSErrno 21))
                   else Inr (fs\<lparr>nodes := AList.update target (FileEntry c) (nodes fs)\<rparr>))))"

text \<open>
  \<open>shutil.move(src, dst)\<close>: a rename; into \<open>dst\<close> when it is a directory (refused
  when the name is taken there). A moved directory takes its subtree with it.
\<close>

definition move :: "filesystem \<Rightarrow> path \<Rightarrow> path \<Rightarrow> exn + filesystem" where
  "move fs src dst =
     (case map_of (io_faults fs) (OpMove src dst) of
        Some e \<Rightarrow> Inl e
      | None \<Rightarrow>
          (case map_of (nodes fs) src of
             None \<Rightarrow> Inl (OSErr FileNotFoundError)
           | Some e \<Rightarrow>
               (let into = (map_of (nodes fs) dst = Some DirEntry);
                    real_dst = (if into then dst @ [path_name src] else dst)
                in if into \<and> path_exists fs real_dst then Inl (OSErr (OSErrno 17))
                   else
                     (case e of
                        FileEntry c \<Rightarrow>
                          Inr (fs\<lparr>nodes := AList.update real_dst (FileEntry c)
                                               (AList.delete src (nodes fs))\<rparr>)
                      | DirEntry \<Rightarrow>
                          Inr (fs\<lparr>nodes :=
                                 map (\<lambda>(q, x). if prefix src q
                                                then (real_dst @ drop (length src) q, x)
                                                else (q, x))
                                   (nodes fs)\<rparr>)))))"

section \<open>The organizer\<close>

text \<open>\<open>str(counter)\<close> of the f-string: the decimal digits of a natural number.\<close>

definition digit_char :: "nat \<Rightarrow> char" where
  "digit_char d = ''0123456789'' ! d"

fun str_nat :: "nat \<Rightarrow> string" where
  "str_nat n = (if n < 10 then [digit_char n] else str_nat (n div 10) @ [digit_char (n mod 10)])"

declare str_nat.simps [simp del]

definition numbered_name :: "path \<Rightarrow> string \<Rightarrow> string \<Rightarrow> nat \<Rightarrow> path" where
  "numbered_name category_dir stem sfx counter =
     category_dir @ [stem @ ''_'' @ str_nat counter @ sfx]"

subsection \<open>Decimal numerals are injective\<close>

definition digit_val :: "char \<Rightarrow> nat" where
  "digit_val c = (case map_of (zip ''0123456789'' [0..<10]) c of Some d \<Rightarrow> d | None \<Rightarrow> 0)"

definition nat_of_digits :: "string \<Rightarrow> nat" where
  "nat_of_digits s = foldl (\<lambda>a c. 10 * a + digit_val c) 0 s"

lemma digit_val_digit_char: "d < 10 \<Longrightarrow> digit_val (digit_char d) = d"
proof -
  assume "d < 10"
  then have "d \<in> {0,1,2,3,4,5,6,7,8,9}" by auto
  then show ?thesis
    by (auto simp: digit_val_def digit_char_def upt_conv_Cons)
qed

lemma nat_of_digits_str_nat: "nat_of_digits (str_nat n) = n"
proof (induction n rule: str_nat.induct)
  case (1 n)
  show ?case
  proof (cases "n < 10")
    case True
    then show ?thesis
      by (subst str_nat.simps) (simp add: nat_of_digits_def digit_val_digit_char)
  next
    case False
    with 1 have ih: "nat_of_digits (str_nat (n div 10)) = n div 10" by simp
    have "nat_of_digits (str_nat n) = 10 * nat_of_digits (str_nat (n div 10)) + digit_val (digit_char (n mod 10))"
      using False by (subst str_nat.simps) (simp add: nat_of_digits_def)
    also have "\<dots> = 10 * (n div 10) + n mod 10"
      by (simp add: ih digit_val_digit_char)
    finally show ?thesis by simp
  qed
qed

lemma str_nat_inj: "str_nat a = str_nat b \<Longrightarrow> a = b"
  by (metis nat_of_digits_str_nat)

lemma numbered_name_inj: "inj (numbered_name d s x)"
  by (auto simp: inj_def numbered_name_def dest: str_nat_inj)

lemma finite_existing: "finite {p. path_exists fs p}"
proof -
  have "{p. path_exists fs p} = dom (map_of (nodes fs))"
    by (auto simp: path_exists_def)
  then show ?thesis by (simp add: finite_dom_map_of)
qed

lemma finite_taken: "finite {k. path_exists fs (numbered_name d s x k)}"
proof -
  have "{k. path_exists fs (numbered_name d s x k)} = numbered_name d s x -` {p. path_exists fs p}"
    by auto
  then show ?thesis
    using finite_vimageI [OF finite_existing numbered_name_inj] by simp
qed

definition taken_from :: "filesystem \<Rightarrow> path \<Rightarrow> string \<Rightarrow> string \<Rightarrow> nat \<Rightarrow> nat" where
  "taken_from fs d s x c = card {k. c \<le> k \<and> path_exists fs (numbered_name d s x k)}"

lemma taken_from_step:
  "taken_from fs d s x c =
     (if path_exists fs (numbered_name d s x c) then 1 else 0) + taken_from fs d s x (Suc c)"
proof -
  let ?A = "{k. Suc c \<le> k \<and> path_exists fs (numbered_name d s x k)}"
  have fin: "finite ?A" using finite_taken [of fs d s x] by (rule rev_finite_subset) auto
  show ?thesis
  proof (cases "path_exists fs (numbered_name d s x c)")
    case True
    then have "{k. c \<le> k \<and> path_exists fs (numbered_name d s x k)} = insert c ?A"
      by (auto simp: le_Suc_eq)
    moreover have "c \<notin> ?A" by simp
    ultimately show ?thesis using fin True by (simp add: taken_from_def)
  next
    case False
    then have "\<And>k. (c \<le> k \<and> path_exists fs (numbered_name d s x k)) =
                  (Suc c \<le> k \<and> path_exists fs (numbered_name d s x k))"
      by (metis Suc_leD Suc_leI le_neq_implies_less)
    then have "{k. c \<le> k \<and> path_exists fs (numbered_name d s x k)} = ?A"
      by simp
    then show ?thesis using False by (simp add: taken_from_def)
  qed
qed

text \<open>
  The loop \<open>while dst_path.exists() and not dry_run\<close> with its body
  \<open>dst_path = category_dir / (stem + '_' + str(counter) + suffix); counter += 1\<close>. The body
  cannot raise, so the loop always ends normally and its \<open>else\<close> clause runs. The
  table of existing paths is finite and the numbered names are pairwise different, so
  the loop terminates.
\<close>

function unique_dst :: "filesystem \<Rightarrow> bool \<Rightarrow> path \<Rightarrow> string \<Rightarrow> string \<Rightarrow> path \<Rightarrow> nat \<Rightarrow> path" where
  "unique_dst fs dry_run category_dir stem sfx dst_path counter =
     (if path_exists fs dst_path \<and> \<not> dry_run
      then unique_dst fs dry_run category_dir stem sfx
             (numbered_name category_dir stem sfx counter) (counter + 1)
      else dst_path)"
  by pat_completeness auto
termination
proof (relation "measure (\<lambda>(fs, dry_run, d, s, x, dst, c).
         (if path_exists fs dst then 1 else 0) + taken_from fs d s x c)")
  show "wf (measure (\<lambda>(fs, dry_run, d, s, x, dst, c).
         (if path_exists fs dst then 1 else 0) + taken_from fs d s x c))" by simp
next
  fix fs :: filesystem and dry_run :: bool and category_dir :: path and stem sfx :: string
    and dst_path :: path and counter :: nat
  assume "path_exists fs dst_path \<and> \<not> dry_run"
  then show "((fs, dry_run, category_dir, stem, sfx, numbered_name category_dir stem sfx counter, counter + 1),
              (fs, dry_run, category_dir, stem, sfx, dst_path, counter))
             \<in> measure (\<lambda>(fs, dry_run, d, s, x, dst, c).
                  (if path_exists fs dst then 1 else 0) + taken_from fs d s x c)"
    using taken_from_step [of fs category_dir stem sfx counter] by simp
qed

declare unique_dst.simps [simp del]

text \<open>\<open>_process_file\<close>: the success flag, the cataloger with its log, the file system.\<close>

definition process_file ::
  "cataloger \<Rightarrow> filesystem \<Rightarrow> path \<Rightarrow> path \<Rightarrow> bool \<Rightarrow> bool \<times> cataloger \<times> filesystem" where
  "process_file st fs src_path dst_path copy_files =
     (if \<not> copy_files \<and> \<not> os_access_w fs (path_parent src_path) then
        (False, st\<lparr>errors := errors st @ [ErrNoWriteSource (path_parent src_path)]\<rparr>, fs)
      else if \<not> os_access_w fs (path_parent dst_path) then
        (False, st\<lparr>errors := errors st @ [ErrNoWriteDest (path_parent dst_path)]\<rparr>, fs)
      else
        (case (if copy_files then copy2 fs src_path dst_path else move fs src_path dst_path) of
           Inr fs' \<Rightarrow> (True, st, fs')
         | Inl (OSErr PermissionError) \<Rightarrow>
             (False, st\<lparr>errors := errors st @
                [ErrPermission (path_name src_path) PermissionError]\<rparr>, fs)
         | Inl (OSErr FileNotFoundError) \<Rightarrow>
             (False, st\<lparr>errors := errors st @
                [ErrNotFound (path_name src_path) FileNotFoundError]\<rparr>, fs)
         | Inl (OSErr (OSErrno n)) \<Rightarrow>
             (False, st\<lparr>errors := errors st @
                [if n = 28 then ErrNoSpace (path_name src_path) (OSErrno n)
                 else if n = 36 then ErrNameTooLong (path_name src_path) (OSErrno n)
                 else ErrSystem (path_name src_path) (OSErrno n)]\<rparr>, fs)
         | Inl Unexpected \<Rightarrow>
             (False, st\<lparr>errors := errors st @
                [ErrUnexpected (path_name src_path) Unexpected]\<rparr>, fs)))"

definition count_successful :: "cataloger \<Rightarrow> cataloger" where
  "count_successful st =
     st\<lparr>operation_stats := (operation_stats st)
          \<lparr>successful_operations := successful_operations (operation_stats st) + 1\<rparr>\<rparr>"

definition count_failed :: "cataloger \<Rightarrow> cataloger" where
  "count_failed st =
     st\<lparr>operation_stats := (operation_stats st)
          \<lparr>failed_operations := failed_operations (operation_stats st) + 1\<rparr>\<rparr>"

text \<open>\<open>category_dir / name\<close>: joining the empty name (the name of \<open>/\<close>) changes nothing.\<close>

definition joinpath :: "path \<Rightarrow> string \<Rightarrow> path" where
  "joinpath p nm = (if nm = [] then p else p @ [nm])"

text \<open>The body of the loop \<open>for i, file_info in enumerate(files)\<close> of \<open>organize_files\<close>.\<close>

definition organize_file ::
  "bool \<Rightarrow> bool \<Rightarrow> path \<Rightarrow> cataloger \<times> filesystem \<Rightarrow> file_info \<Rightarrow> cataloger \<times> filesystem" where
  "organize_file copy_files dry_run category_dir sf file_info =
     (let st = fst sf; fs = snd sf; src_path = path file_info
      in if \<not> path_exists fs src_path then
           (count_failed (st\<lparr>errors := errors st @ [ErrSourceMissing src_path]\<rparr>), fs)
         else
           (let dst_path = unique_dst fs dry_run category_dir (path_stem src_path)
                             (path_suffix src_path) (joinpath category_dir (path_name src_path)) 1
            in if dry_run then (count_successful st, fs)
               else
                 (case process_file st fs src_path dst_path copy_files of
                    (success, st', fs') \<Rightarrow>
                      (if success then count_successful st' else count_failed st', fs'))))"

text \<open>
  The body of the loop \<open>for category, files in categories_to_process\<close>.
  \<open>move_to_dir\<close> is \<open>None\<close> for Python's \<open>None\<close> and for the empty string.
\<close>

definition organize_category ::
  "bool \<Rightarrow> bool \<Rightarrow> path option \<Rightarrow> path \<Rightarrow> cataloger \<times> filesystem \<Rightarrow>
   string \<times> file_info list \<Rightarrow> cataloger \<times> filesystem" where
  "organize_category copy_files dry_run move_to_dir base_path sf cf =
     (let st = fst sf; fs = snd sf; cat = fst cf; files = snd cf
      in if files = [] then (st, fs)
         else
           (let category_dir = (if move_to_dir \<noteq> None then base_path else base_path @ [cat])
            in if \<not> dry_run then
                 (case mkdir fs category_dir of
                    Inl PermissionError \<Rightarrow>
                      (st\<lparr>errors := errors st @
                         [ErrMkdirPermission category_dir PermissionError]\<rparr>, fs)
                  | Inl FileNotFoundError \<Rightarrow>
                      (st\<lparr>errors := errors st @
                         [ErrMkdirSystem category_dir FileNotFoundError]\<rparr>, fs)
                  | Inl (OSErrno n) \<Rightarrow>
                      (st\<lparr>errors := errors st @
                         [ErrMkdirSystem category_dir (OSErrno n)]\<rparr>, fs)
                  | Inr fs' \<Rightarrow>
                      foldl (organize_file copy_files dry_run category_dir) (st, fs') files)
               else foldl (organize_file copy_files dry_run category_dir) (st, fs) files))"

text \<open>\<open>self.catalog[key]\<close> on the \<open>defaultdict\<close>: a missing key is inserted with \<open>[]\<close>.\<close>

definition catalog_touch :: "(string \<times> file_info list) list \<Rightarrow> string \<Rightarrow> (string \<times> file_info list) list" where
  "catalog_touch cat c = (case map_of cat c of None \<Rightarrow> cat @ [(c, [])] | Some fs \<Rightarrow> cat)"

definition catalog_get :: "(string \<times> file_info list) list \<Rightarrow> string \<Rightarrow> file_info list" where
  "catalog_get cat c = (case map_of cat c of None \<Rightarrow> [] | Some fs \<Rightarrow> fs)"

text \<open>
  \<open>organize_files\<close>. \<open>file_type_filter\<close> counts as given when it is a non-empty
  string; an unrecognised one returns right after the reset of the counters.
\<close>

definition organize_files ::
  "(string \<Rightarrow> string) \<Rightarrow> cataloger \<Rightarrow> filesystem \<Rightarrow> path \<Rightarrow> bool \<Rightarrow> bool \<Rightarrow> string option \<Rightarrow> path option \<Rightarrow>
   cataloger \<times> filesystem" where
  "organize_files lw st fs base_output_dir copy_files dry_run file_type_filter move_to_dir =
     (let st0 = st\<lparr>operation_stats := zero_operation_stats\<rparr>;
          base_path = (case move_to_dir of Some m \<Rightarrow> m | None \<Rightarrow> base_output_dir)
      in case (case file_type_filter of None \<Rightarrow> None | Some f \<Rightarrow> if f = [] then None else Some f) of
           Some f \<Rightarrow>
             if lw f \<in> set (map fst categories) then
               (let st1 = st0\<lparr>catalog := catalog_touch (catalog st0) (lw f)\<rparr>
                in foldl (organize_category copy_files dry_run move_to_dir base_path) (st1, fs)
                     [(lw f, catalog_get (catalog st1) (lw f))])
             else (st0, fs)
         | None \<Rightarrow>
             foldl (organize_category copy_files dry_run move_to_dir base_path) (st0, fs)
               (catalog st0))"

section \<open>Properties of a catalog\<close>

text \<open>
  \<open>total_files\<close> is the sum of the counts of the categories and \<open>total_size\<close> the sum of
  the sizes of all records.
\<close>

definition stats_consistent :: "cataloger \<Rightarrow> bool" where
  "stats_consistent st =
     (stats st ''total_files'' = sum_list (map (stats st) (map fst categories))
      \<and> stats st ''total_size'' = sum_list (map size_bytes (all_records st)))"

text \<open>The record \<open>scan_file\<close> appends for a file whose \<open>stat()\<close> returned \<open>s\<close>.\<close>

definition new_record :: "(string \<Rightarrow> string) \<Rightarrow> bool \<Rightarrow> path \<Rightarrow> file_attrs \<Rightarrow> stat_result \<Rightarrow> file_info" where
  "new_record lw ih p a s =
     \<lparr>path = p, name = path_name p, size_bytes = st_size s, modified = st_mtime s,
      created = st_ctime s, extension = lw (path_suffix p), parent_dir = path_parent p,
      hash = (if ih then Some (get_file_hash a) else None), category = categorize_file lw p\<rparr>"

text \<open>Every record carries the category the classifier gives its path.\<close>

definition records_classified :: "(string \<Rightarrow> string) \<Rightarrow> cataloger \<Rightarrow> bool" where
  "records_classified lw st =
     list_all (\<lambda>r. category r = categorize_file lw (path r)) (all_records st)"

text \<open>The candidates a type filter with the extension list \<open>exts\<close> lets through.\<close>

definition passes_filter :: "(string \<Rightarrow> string) \<Rightarrow> string list \<Rightarrow> path \<times> node \<Rightarrow> bool" where
  "passes_filter lw exts c =
     (if is_file (snd c) = Inr True then lw (path_suffix (fst c)) \<in> set exts else True)"

text \<open>
  The exclusions are \<open>ex\<close> and no record of the catalog lies at or below \<open>D\<close>.
\<close>

definition clean_of :: "path list \<Rightarrow> path \<Rightarrow> cataloger \<Rightarrow> bool" where
  "clean_of ex D s = (exclude_paths s = ex \<and> list_all (\<lambda>r. \<not> prefix D (path r)) (all_records s))"

section \<open>Concrete inputs\<close>

text \<open>
  A regular file of the given size whose \<open>stat()\<close> succeeds, and a cataloger built with
  the given exclusions where no \<open>folder_exclusions.txt\<close> exists.
\<close>

definition regular_file :: "nat \<Rightarrow> node" where
  "regular_file n =
     File \<lparr>is_file_result = Inr True,
           stat_outcome = Inr \<lparr>st_size = n, st_mtime = 0, st_ctime = 0\<rparr>,
           md5 = None\<rparr>"

definition new_cataloger :: "path list \<Rightarrow> cataloger" where
  "new_cataloger exclude = init_cataloger False exclude (\<lambda>l. l) (\<lambda>l. Inl Unexpected) None"

text \<open>
  Two sources \<open>/s1/a.txt\<close> and \<open>/s2/a.txt\<close> with their catalog; the same file system
  after the first was copied to \<open>/D/documents\<close>; and one where \<open>/D\<close> exists and is
  not writable.
\<close>

definition record_of :: "path \<Rightarrow> file_info" where
  "record_of p =
     new_record ascii_lower False p
       \<lparr>is_file_result = Inr True,
        stat_outcome = Inr \<lparr>st_size = 0, st_mtime = 0, st_ctime = 0\<rparr>, md5 = None\<rparr>
       \<lparr>st_size = 0, st_mtime = 0, st_ctime = 0\<rparr>"

definition two_sources :: filesystem where
  "two_sources =
     \<lparr>nodes = [([], DirEntry),
               ([''s1''], DirEntry), ([''s1'', ''a.txt''], FileEntry ''first''),
               ([''s2''], DirEntry), ([''s2'', ''a.txt''], FileEntry ''second'')],
      readonly = [], mkdir_faults = [], io_faults = []\<rparr>"

definition two_records :: cataloger where
  "two_records =
     (new_cataloger [])\<lparr>catalog :=
        [(''documents'', [record_of [''s1'', ''a.txt''], record_of [''s2'', ''a.txt'']])]\<rparr>"

definition first_copied :: filesystem where
  "first_copied =
     two_sources\<lparr>nodes := nodes two_sources @
        [([''D''], DirEntry), ([''D'', ''documents''], DirEntry),
         ([''D'', ''documents'', ''a.txt''], FileEntry ''first'')]\<rparr>"

definition readonly_target :: filesystem where
  "readonly_target =
     two_sources\<lparr>nodes := nodes two_sources @ [([''D''], DirEntry)], readonly := [[''D'']]\<rparr>"

section \<open>The classifier returns the configured category\<close>

lemma first_category_member:
  "distinct (concat (map snd cats)) \<Longrightarrow> (c, exts) \<in> set cats \<Longrightarrow> e \<in> set exts \<Longrightarrow>
   first_category cats e = c"
proof (induction cats)
  case Nil
  then show ?case by simp
next
  case (Cons a cats)
  obtain c' exts' where a: "a = (c', exts')" by (cases a)
  show ?case
  proof (cases "e \<in> set exts'")
    case True
    have "(c, exts) = (c', exts')"
    proof (rule ccontr)
      assume "(c, exts) \<noteq> (c', exts')"
      with Cons.prems(2) a have "(c, exts) \<in> set cats" by auto
      with Cons.prems(3) have "e \<in> set (concat (map snd cats))" by force
      with True Cons.prems(1) a show False by auto
    qed
    with True a show ?thesis by simp
  next
    case False
    with Cons.prems a have "(c, exts) \<in> set cats" by auto
    with Cons False a show ?thesis by simp
  qed
qed

lemma first_category_none:
  "\<forall>(c, exts) \<in> set cats. e \<notin> set exts \<Longrightarrow> first_category cats e = ''outros''"
  by (induction cats) auto

lemma categories_distinct: "distinct (concat (map snd categories))"
  unfolding categories_def by simp

lemma empty_extension_unlisted: "\<forall>(c, exts) \<in> set categories. [] \<notin> set exts"
  unfolding categories_def by simp

text \<open>
  Claim C4. For every lower-casing function \<open>lw\<close> that maps the empty string to itself
  (as \<open>str.lower()\<close> does), \<open>categorize_file\<close> returns the category whose configured
  extension list holds the lower-cased suffix of the path; it returns \<open>outros\<close> when no
  list holds it, in particular when the suffix is empty; two paths whose suffixes have
  the same lower-casing get the same category. So a suffix written with the Kelvin sign,
  which \<open>str.lower()\<close> maps to \<open>.mkv\<close>, is classified as \<open>.mkv\<close> is. The function is a
  HOL function of its arguments, so it is pure and deterministic.
\<close>

theorem categorize_file_classifies:
  assumes "lw [] = []"
  shows "(\<forall>c exts. (c, exts) \<in> set categories \<and> lw (path_suffix file_path) \<in> set exts
       \<longrightarrow> categorize_file lw file_path = c)
   \<and> ((\<forall>(c, exts) \<in> set categories. lw (path_suffix file_path) \<notin> set exts)
       \<longrightarrow> categorize_file lw file_path = ''outros'')
   \<and> (path_suffix file_path = [] \<longrightarrow> categorize_file lw file_path = ''outros'')
   \<and> (lw (path_suffix file_path) = lw (path_suffix other_path)
       \<longrightarrow> categorize_file lw file_path = categorize_file lw other_path)"
proof (intro conjI allI impI)
  fix c exts
  assume "(c, exts) \<in> set categories \<and> lw (path_suffix file_path) \<in> set exts"
  then show "categorize_file lw file_path = c"
    using first_category_member [OF categories_distinct, of c exts "lw (path_suffix file_path)"]
    by (simp add: categorize_file_def)
next
  assume "\<forall>(c, exts) \<in> set categories. lw (path_suffix file_path) \<notin> set exts"
  then show "categorize_file lw file_path = ''outros''"
    by (simp add: categorize_file_def first_category_none)
next
  assume "path_suffix file_path = []"
  with assms have "lw (path_suffix file_path) = []" by simp
  with empty_extension_unlisted show "categorize_file lw file_path = ''outros''"
    by (simp add: categorize_file_def first_category_none)
next
  assume "lw (path_suffix file_path) = lw (path_suffix other_path)"
  then show "categorize_file lw file_path = categorize_file lw other_path"
    by (simp add: categorize_file_def)
qed

lemmas path_simps =
  path_suffix_def path_name_def name_suffix_def rfind_def ascii_lower_def ascii_lower_char_def

text \<open>The four conjuncts of C4 at concrete ASCII paths, where \<open>str.lower()\<close> is \<open>ascii_lower\<close>.\<close>

theorem categorize_file_classifies_witness:
  "ascii_lower [] = []
   \<and> categorize_file ascii_lower [''media'', ''Holiday.JPG''] = ''fotos''
   \<and> categorize_file ascii_lower [''media'', ''notes.xyz''] = ''outros''
   \<and> categorize_file ascii_lower [''media'', ''README''] = ''outros''
   \<and> categorize_file ascii_lower [''media'', ''a.Mp3'']
     = categorize_file ascii_lower [''other'', ''b.mP3'']"
proof -
  let ?fotos = "[''.jpg'', ''.jpeg'', ''.png'', ''.gif'', ''.bmp'', ''.tiff'', ''.tif'',
         ''.webp'', ''.raw'', ''.cr2'', ''.nef'', ''.arw'', ''.dng'', ''.heic'', ''.heif'']"
  have h0: "ascii_lower [] = []" by (simp add: ascii_lower_def)
  have h1: "(''fotos'', ?fotos) \<in> set categories
            \<and> ascii_lower (path_suffix [''media'', ''Holiday.JPG'']) \<in> set ?fotos"
    by (simp add: categories_def path_simps)
  have h2: "\<forall>(c, exts) \<in> set categories.
              ascii_lower (path_suffix [''media'', ''notes.xyz'']) \<notin> set exts"
    by (simp add: categories_def path_simps)
  have h3: "path_suffix [''media'', ''README''] = []"
    by (simp add: path_simps)
  have h4: "ascii_lower (path_suffix [''media'', ''a.Mp3''])
            = ascii_lower (path_suffix [''other'', ''b.mP3''])"
    by (simp add: path_simps)
  from h1 have c1: "categorize_file ascii_lower [''media'', ''Holiday.JPG''] = ''fotos''"
    using categorize_file_classifies [where lw = ascii_lower, OF h0, of "[''media'', ''Holiday.JPG'']"] by blast
  from h2 have c2: "categorize_file ascii_lower [''media'', ''notes.xyz''] = ''outros''"
    using categorize_file_classifies [where lw = ascii_lower, OF h0, of "[''media'', ''notes.xyz'']"] by blast
  from h3 have c3: "categorize_file ascii_lower [''media'', ''README''] = ''outros''"
    using categorize_file_classifies [where lw = ascii_lower, OF h0, of "[''media'', ''README'']"] by blast
  from h4 have c4: "categorize_file ascii_lower [''media'', ''a.Mp3'']
                    = categorize_file ascii_lower [''other'', ''b.mP3'']"
    using categorize_file_classifies [where lw = ascii_lower, OF h0, of "[''media'', ''a.Mp3'']" "[''other'', ''b.mP3'']"]
    by blast
  from h0 c1 c2 c3 c4 show ?thesis by blast
qed

section \<open>The organizer: counters and dry run\<close>

lemma skipped_count_successful [simp]:
  "skipped_operations (operation_stats (count_successful st)) = skipped_operations (operation_stats st)"
  by (simp add: count_successful_def)

lemma skipped_count_failed [simp]:
  "skipped_operations (operation_stats (count_failed st)) = skipped_operations (operation_stats st)"
  by (simp add: count_failed_def)

lemma process_file_stats:
  "process_file st fs src dst cp = (ok, st', fs') \<Longrightarrow> operation_stats st' = operation_stats st"
  by (auto simp: process_file_def split: if_splits sum.splits exn.splits oserror.splits)

lemma organize_file_skipped:
  "skipped_operations (operation_stats (fst (organize_file cp dry cdir sf fi)))
   = skipped_operations (operation_stats (fst sf))"
  by (auto simp: organize_file_def Let_def split: prod.splits dest: process_file_stats)

lemma foldl_organize_file_skipped:
  "skipped_operations (operation_stats (fst (foldl (organize_file cp dry cdir) sf files)))
   = skipped_operations (operation_stats (fst sf))"
  by (induction files arbitrary: sf) (simp_all add: organize_file_skipped)

lemma organize_category_skipped:
  "skipped_operations (operation_stats (fst (organize_category cp dry mtd base sf cf)))
   = skipped_operations (operation_stats (fst sf))"
  by (simp add: organize_category_def Let_def foldl_organize_file_skipped
      split: sum.splits oserror.splits)

lemma foldl_organize_category_skipped:
  "skipped_operations (operation_stats (fst (foldl (organize_category cp dry mtd base) sf cats)))
   = skipped_operations (operation_stats (fst sf))"
  by (induction cats arbitrary: sf) (simp_all add: organize_category_skipped)

text \<open>
  Claim C10. No path of \<open>organize_files\<close> increments \<open>skipped_operations\<close>: after every
  call, dry run or not, whatever the catalog, the filter and the failures, it is 0.
\<close>

theorem skipped_operations_always_zero:
  "skipped_operations (operation_stats
     (fst (organize_files lw st fs base_output_dir copy_files dry_run file_type_filter move_to_dir))) = 0"
  by (simp add: organize_files_def Let_def foldl_organize_category_skipped
      organize_category_skipped zero_operation_stats_def split: option.splits)

lemma unique_dst_dry: "unique_dst fs True cdir s x dst c = dst"
  by (subst unique_dst.simps) simp

lemma organize_file_dry: "snd (organize_file cp True cdir sf fi) = snd sf"
  by (simp add: organize_file_def Let_def)

lemma foldl_organize_file_dry: "snd (foldl (organize_file cp True cdir) sf files) = snd sf"
  by (induction files arbitrary: sf) (simp_all add: organize_file_dry)

lemma organize_category_dry: "snd (organize_category cp True mtd base sf cf) = snd sf"
  by (simp add: organize_category_def Let_def foldl_organize_file_dry)

lemma foldl_organize_category_dry:
  "snd (foldl (organize_category cp True mtd base) sf cats) = snd sf"
  by (induction cats arbitrary: sf) (simp_all add: organize_category_dry)

text \<open>
  Claim C2. With \<open>dry_run\<close> true, \<open>organize_files\<close> returns the file system it was
  given: no directory is created and no file is created, copied, moved or deleted,
  whatever the catalog, \<open>copy_files\<close>, \<open>file_type_filter\<close> and \<open>move_to_dir\<close>.
\<close>

theorem dry_run_leaves_file_system:
  "snd (organize_files lw st fs base_output_dir copy_files True file_type_filter move_to_dir) = fs"
  by (simp add: organize_files_def Let_def foldl_organize_category_dry organize_category_dry
      split: option.splits)

section \<open>The scanner: invariants of the loop\<close>

lemma scan_files_invariant:
  assumes "P st"
    and "\<And>s p a. P s \<Longrightarrow> P (scan_file lw ih tgt s p a)"
    and "\<And>s e. P s \<Longrightarrow> P (s\<lparr>errors := errors s @ [e]\<rparr>)"
  shows "P (scan_files lw ih tgt d st files)"
  using assms(1)
proof (induction files arbitrary: st)
  case Nil
  then show ?case by simp
next
  case (Cons c files)
  obtain p nd where c: "c = (p, nd)" by (cases c)
  show ?case
    using Cons assms(2,3) c
    by (cases nd) (auto split: sum.splits)
qed

lemma scan_directory_invariant:
  assumes "P st"
    and "\<And>s p a. P s \<Longrightarrow> P (scan_file lw ih (target_extensions_of lw ftf) s p a)"
    and "\<And>s e. P s \<Longrightarrow> P (s\<lparr>errors := errors s @ [e]\<rparr>)"
  shows "P (scan_directory lw st fs d ih md ftf)"
  using assms
  by (auto simp: scan_directory_def Let_def split: option.splits intro: scan_files_invariant)

lemma scan_multiple_volumes_invariant:
  assumes "P st"
    and "\<And>s p a. P s \<Longrightarrow> P (scan_file lw ih (target_extensions_of lw ftf) s p a)"
    and "\<And>s e. P s \<Longrightarrow> P (s\<lparr>errors := errors s @ [e]\<rparr>)"
  shows "P (scan_multiple_volumes lw st fs roots ih md ftf)"
  using assms(1)
proof (induction roots arbitrary: st)
  case Nil
  then show ?case by simp
next
  case (Cons r roots)
  have "P (scan_directory lw st fs r ih md ftf)"
    by (rule scan_directory_invariant [OF Cons.prems assms(2,3)])
  then show ?case using Cons.IH by simp
qed

lemma sum_list_update_append:
  fixes f :: "'a \<Rightarrow> nat"
  shows "map_of cat c = Some fs \<Longrightarrow>
   sum_list (map f (concat (map snd (AList.update c (fs @ [fi]) cat))))
   = sum_list (map f (concat (map snd cat))) + f fi"
  by (induction cat) (auto split: if_splits)

lemma sum_list_catalog_append:
  fixes f :: "file_info \<Rightarrow> nat"
  shows "sum_list (map f (concat (map snd (catalog_append cat c fi))))
   = sum_list (map f (concat (map snd cat))) + f fi"
  by (simp add: catalog_append_def sum_list_update_append split: option.splits)

lemma set_update_append:
  "map_of cat c = Some fs \<Longrightarrow>
   set (concat (map snd (AList.update c (fs @ [fi]) cat)))
   = insert fi (set (concat (map snd cat)))"
  by (induction cat) (auto split: if_splits)

lemma set_catalog_append:
  "set (concat (map snd (catalog_append cat c fi))) = insert fi (set (concat (map snd cat)))"
proof (cases "map_of cat c")
  case None
  then show ?thesis by (simp add: catalog_append_def)
next
  case (Some fs)
  then show ?thesis using set_update_append [OF Some, of fi] by (simp add: catalog_append_def)
qed

lemma first_category_key:
  "first_category cats e \<in> insert ''outros'' (set (map fst cats))"
  by (induction cats) force+

lemma categorize_file_key: "categorize_file lw p \<in> set (map fst categories)"
proof -
  have "''outros'' \<in> set (map fst categories)" by (simp add: categories_def)
  then show ?thesis
    using first_category_key [of categories "lw (path_suffix p)"]
    by (force simp: categorize_file_def)
qed

lemma category_counts_step:
  assumes "c \<in> set (map fst categories)"
  shows "sum_list (map ((\<lambda>k. s k + (if k = c then 1 else 0)
                            + (if k = ''total_files'' then 1 else 0)
                            + (if k = ''total_size'' then (n::nat) else 0)) \<circ> fst) categories)
         = sum_list (map (s \<circ> fst) categories) + 1"
  using assms by (auto simp: categories_def)

lemma special_keys:
  "c \<in> set (map fst categories) \<Longrightarrow>
   c \<noteq> ''total_files'' \<and> c \<noteq> ''total_size'' \<and> ''total_files'' \<noteq> c \<and> ''total_size'' \<noteq> c"
  by (auto simp: categories_def)

lemma ingest_stats_consistent:
  assumes "stats_consistent st" and "c \<in> set (map fst categories)"
  shows "stats_consistent
           (st\<lparr>folders_with_files := F,
               catalog := catalog_append (catalog st) c fi,
               stats := (\<lambda>k. stats st k + (if k = c then 1 else 0)
                           + (if k = ''total_files'' then 1 else 0)
                           + (if k = ''total_size'' then size_bytes fi else 0))\<rparr>)"
  using assms(1) special_keys [OF assms(2)]
  by (simp add: stats_consistent_def all_records_def sum_list_catalog_append
      category_counts_step [OF assms(2)])

lemma scan_file_eq:
  "scan_file lw ih tgt st p a =
     (if is_path_excluded st p
         \<or> (case tgt of None \<Rightarrow> False
             | Some exts \<Rightarrow> exts \<noteq> [] \<and> lw (path_suffix p) \<notin> set exts)
      then st
      else (case stat_outcome a of
              Inl e \<Rightarrow> st\<lparr>errors := errors st @ [ErrAccess p e]\<rparr>
            | Inr s \<Rightarrow>
                st\<lparr>folders_with_files := insert (path_parent p) (folders_with_files st),
                   catalog := catalog_append (catalog st) (categorize_file lw p)
                      (new_record lw ih p a s),
                   stats := (\<lambda>k. stats st k + (if k = categorize_file lw p then 1 else 0)
                               + (if k = ''total_files'' then 1 else 0)
                               + (if k = ''total_size'' then size_bytes (new_record lw ih p a s)
                                  else 0))\<rparr>))"
  by (cases ih)
     (simp_all add: scan_file_def get_file_info_def Let_def new_record_def
        split: sum.splits cong: if_cong)

lemma errors_stats_consistent:
  "stats_consistent st \<Longrightarrow> stats_consistent (st\<lparr>errors := errors st @ [e]\<rparr>)"
  by (simp add: stats_consistent_def all_records_def)

lemma scan_file_stats_consistent:
  "stats_consistent st \<Longrightarrow> stats_consistent (scan_file lw ih tgt st p a)"
  by (auto simp: scan_file_eq errors_stats_consistent split: sum.splits
      intro!: ingest_stats_consistent categorize_file_key)

lemma load_lines_catalog: "catalog (load_lines sp r st ls) = catalog st \<and> stats (load_lines sp r st ls) = stats st"
  by (induction ls arbitrary: st) (auto simp: Let_def split: sum.splits)

lemma init_stats_consistent: "stats_consistent (init_cataloger v ex sp r xf)"
  by (auto simp: stats_consistent_def init_cataloger_def load_folder_exclusions_def
      all_records_def load_lines_catalog split: option.splits)

text \<open>
  Claim C3. Starting from a new cataloger, after scanning any sequence of roots, and at
  every point of the loop over the candidates of a further directory (after any number
  \<open>k\<close> of them), \<open>total_files\<close> equals the sum of the counts of the categories and
  \<open>total_size\<close> the sum of the sizes of all records of the catalog.
\<close>

theorem stats_totals_consistent:
  "stats_consistent
     (scan_multiple_volumes lw (init_cataloger v ex sp r xf) fs roots include_hash max_depth file_type_filter)
   \<and> stats_consistent
       (scan_files lw include_hash tgt directory
          (scan_multiple_volumes lw (init_cataloger v ex sp r xf) fs roots include_hash max_depth
             file_type_filter)
          (take k files))"
proof -
  have after: "stats_consistent
     (scan_multiple_volumes lw (init_cataloger v ex sp r xf) fs roots include_hash max_depth file_type_filter)"
    by (rule scan_multiple_volumes_invariant
        [OF init_stats_consistent scan_file_stats_consistent errors_stats_consistent])
  have "stats_consistent
       (scan_files lw include_hash tgt directory
          (scan_multiple_volumes lw (init_cataloger v ex sp r xf) fs roots include_hash max_depth
             file_type_filter)
          (take k files))"
    by (rule scan_files_invariant [OF after scan_file_stats_consistent errors_stats_consistent])
  with after show ?thesis by simp
qed

section \<open>The scanner: roots and filters\<close>

lemmas eval_simps =
  new_cataloger_def init_cataloger_def load_folder_exclusions_def zero_operation_stats_def
  regular_file_def scan_directory_def scan_candidates_def rglob_def get_files_with_depth_def
  target_extensions_of_def scan_file_def get_file_info_def get_file_hash_def is_path_excluded_def
  catalog_append_def all_records_def categorize_file_def categories_def visited_dirs_def
  level_of_def path_str_def path_parent_def
  path_suffix_def path_name_def name_suffix_def rfind_def ascii_lower_def ascii_lower_char_def Let_def

subsection \<open>A missing root\<close>

lemma scan_multiple_volumes_append:
  "scan_multiple_volumes lw st fs (xs @ ys) ih md ftf
   = scan_multiple_volumes lw (scan_multiple_volumes lw st fs xs ih md ftf) fs ys ih md ftf"
  by (induction xs arbitrary: st) simp_all

text \<open>
  Claim C7 as stated fails: scanning a root that does not exist appends nothing to
  \<open>self.errors\<close>. The source only prints the notice and returns.
\<close>

theorem missing_root_not_logged:
  "lookup (Dir []) [''missing''] = None
   \<and> errors (scan_multiple_volumes ascii_lower (new_cataloger []) (Dir []) [[''missing'']] False None None) = []"
  by (simp add: eval_simps)

text \<open>
  Claim C7, amended. A root that does not exist leaves the cataloger as it was (catalog,
  counters and log), and the scan of a sequence of roots is the scan of the sequence
  without that root: the remaining roots are scanned as usual.
\<close>

theorem missing_root_is_skipped:
  assumes "lookup fs root = None"
  shows "scan_directory lw st fs root include_hash max_depth file_type_filter = st
   \<and> scan_multiple_volumes lw st fs (before @ root # rest) include_hash max_depth file_type_filter
     = scan_multiple_volumes lw st fs (before @ rest) include_hash max_depth file_type_filter"
  using assms by (simp add: scan_multiple_volumes_append scan_directory_def)

text \<open>The roots \<open>/missing\<close> and \<open>/data\<close> over a tree that only has \<open>/data/a.txt\<close>.\<close>

theorem missing_root_is_skipped_witness:
  "lookup (Dir [(''data'', Dir [(''a.txt'', regular_file 3)])]) [''missing''] = None
   \<and> scan_directory ascii_lower (new_cataloger []) (Dir [(''data'', Dir [(''a.txt'', regular_file 3)])])
        [''missing''] False None None = new_cataloger []
   \<and> scan_multiple_volumes ascii_lower (new_cataloger []) (Dir [(''data'', Dir [(''a.txt'', regular_file 3)])])
        ([] @ [''missing''] # [[''data'']]) False None None
     = scan_multiple_volumes ascii_lower (new_cataloger []) (Dir [(''data'', Dir [(''a.txt'', regular_file 3)])])
        ([] @ [[''data'']]) False None None
   \<and> map path (all_records (scan_multiple_volumes ascii_lower (new_cataloger [])
        (Dir [(''data'', Dir [(''a.txt'', regular_file 3)])])
        ([] @ [''missing''] # [[''data'']]) False None None)) = [[''data'', ''a.txt'']]"
proof -
  let ?fs = "Dir [(''data'', Dir [(''a.txt'', regular_file 3)])]"
  have h: "lookup ?fs [''missing''] = None" by simp
  have e: "map path (all_records (scan_multiple_volumes ascii_lower (new_cataloger []) ?fs
        ([] @ [[''data'']]) False None None)) = [[''data'', ''a.txt'']]"
    by (simp add: eval_simps)
  from missing_root_is_skipped [OF h, of ascii_lower "new_cataloger []" False None None "[]" "[[''data'']]"] h e
  show ?thesis by simp
qed

subsection \<open>The type filter\<close>

lemma scan_files_filter:
  "exts \<noteq> [] \<Longrightarrow>
   scan_files lw ih (Some exts) d st files
   = scan_files lw ih None d st (filter (passes_filter lw exts) files)"
proof (induction files arbitrary: st)
  case Nil
  then show ?case by simp
next
  case (Cons c files)
  obtain p nd where c: "c = (p, nd)" by (cases c)
  show ?case
  proof (cases nd)
    case (Dir es)
    with Cons c show ?thesis by (simp add: passes_filter_def)
  next
    case (File a)
    show ?thesis
    proof (cases "is_file_result a")
      case (Inl e)
      with File c show ?thesis by (simp add: passes_filter_def)
    next
      case (Inr b)
      with File c Cons show ?thesis
        by (cases b) (auto simp: passes_filter_def scan_file_eq)
    qed
  qed
qed

lemma records_classified_iff:
  "records_classified lw st = (\<forall>r \<in> set (all_records st). category r = categorize_file lw (path r))"
  by (simp add: records_classified_def list_all_iff)

lemma set_all_records_scan_file:
  "set (all_records (scan_file lw ih tgt st p a)) =
     (if is_path_excluded st p
         \<or> (case tgt of None \<Rightarrow> False
             | Some exts \<Rightarrow> exts \<noteq> [] \<and> lw (path_suffix p) \<notin> set exts)
      then set (all_records st)
      else (case stat_outcome a of
              Inl e \<Rightarrow> set (all_records st)
            | Inr s \<Rightarrow> insert (new_record lw ih p a s) (set (all_records st))))"
  by (simp add: scan_file_eq all_records_def set_catalog_append split: sum.splits del: set_concat)

lemma scan_file_records_classified:
  "records_classified lw st \<Longrightarrow> records_classified lw (scan_file lw ih tgt st p a)"
  by (auto simp: records_classified_iff set_all_records_scan_file new_record_def
      split: sum.splits)

lemma errors_records_classified:
  "records_classified lw st \<Longrightarrow> records_classified lw (st\<lparr>errors := errors st @ [e]\<rparr>)"
  by (simp add: records_classified_def all_records_def)

text \<open>
  Claim C8 at the failing input: the filter \<open>outros\<close> over a directory holding
  \<open>photo.jpg\<close>. \<open>outros\<close> is a recognised category and its extension set is empty, so
  by the claim (and by the comment of the source, which skips the files that do not
  match the filter type) no file is cataloged. But the test
  \<open>if target_extensions and ...\<close> is false for the empty set, no file is skipped, and
  \<open>photo.jpg\<close> is cataloged, under \<open>fotos\<close>.
\<close>

theorem outros_filter_is_not_applied:
  "map_of categories ''outros'' = Some []
   \<and> map (\<lambda>r. (path r, extension r, category r))
       (all_records (scan_directory ascii_lower (new_cataloger []) (Dir [(''photo.jpg'', regular_file 5)]) []
          False None (Some ''outros'')))
     = [([''photo.jpg''], ''.jpg'', ''fotos'')]"
  by (simp add: eval_simps)

text \<open>
  The same holds on every tree: a filter whose extension set is empty is no filter.
\<close>

lemma empty_extension_set_disables_filter:
  assumes "target_extensions_of lw (Some f) = Some []"
  shows "scan_directory lw st fs directory include_hash max_depth (Some f)
         = scan_directory lw st fs directory include_hash max_depth None"
proof -
  have one: "\<And>s p a. scan_file lw include_hash (Some []) s p a = scan_file lw include_hash None s p a"
    by (simp add: scan_file_def)
  have "\<And>s. scan_files lw include_hash (Some []) directory s files
            = scan_files lw include_hash None directory s files" for files
  proof (induction files)
    case Nil
    show ?case by simp
  next
    case (Cons c files)
    obtain p nd where c: "c = (p, nd)" by (cases c)
    show ?case using Cons c by (cases nd) (simp_all add: one split: sum.splits)
  qed
  with assms show ?thesis
    by (simp add: scan_directory_def Let_def target_extensions_of_def split: option.splits)
qed

text \<open>
  Where the extension set is not empty the filter does what is claimed. For a filter
  naming (in any case) such a category, the scan is the unfiltered scan of the
  candidates that pass the filter: the regular files whose lower-cased suffix is in the
  set (the other candidates are not regular files). The category of every record stays
  the one the classifier gives its path.
\<close>

lemma type_filter_restricts_candidates:
  assumes "f \<noteq> []" and "map_of categories (lw f) = Some exts" and "exts \<noteq> []"
  shows "scan_directory lw st fs directory include_hash max_depth (Some f)
         = (case lookup fs directory of
              None \<Rightarrow> st
            | Some t \<Rightarrow>
                scan_files lw include_hash None directory st
                  (filter (passes_filter lw exts) (scan_candidates st directory max_depth t)))
   \<and> (records_classified lw st
        \<longrightarrow> records_classified lw (scan_directory lw st fs directory include_hash max_depth (Some f)))"
proof -
  from assms(2) have "lw f \<in> set (map fst categories)"
    by (metis map_of_eq_None_iff option.distinct(1) set_map)
  with assms have tgt: "target_extensions_of lw (Some f) = Some exts"
    by (simp add: target_extensions_of_def)
  have "records_classified lw st
        \<Longrightarrow> records_classified lw (scan_directory lw st fs directory include_hash max_depth (Some f))"
    by (rule scan_directory_invariant [OF _ scan_file_records_classified errors_records_classified])
  then show ?thesis
    using tgt assms(3)
    by (simp add: scan_directory_def Let_def scan_files_filter split: option.splits)
qed

text \<open>The filter \<open>Fotos\<close> over \<open>photo.JPG\<close> and \<open>notes.txt\<close>.\<close>

lemma type_filter_restricts_candidates_example:
  "''Fotos'' \<noteq> [] \<and> map_of categories (ascii_lower ''Fotos'') = Some (the (map_of categories ''fotos''))
   \<and> the (map_of categories ''fotos'') \<noteq> []
   \<and> map (\<lambda>r. (path r, category r))
       (all_records (scan_directory ascii_lower (new_cataloger [])
          (Dir [(''photo.JPG'', regular_file 5), (''notes.txt'', regular_file 7)]) []
          False None (Some ''Fotos'')))
     = [([''photo.JPG''], ''fotos'')]
   \<and> records_classified ascii_lower (scan_directory ascii_lower (new_cataloger [])
          (Dir [(''photo.JPG'', regular_file 5), (''notes.txt'', regular_file 7)]) []
          False None (Some ''Fotos''))"
proof -
  let ?fs = "Dir [(''photo.JPG'', regular_file 5), (''notes.txt'', regular_file 7)]"
  let ?exts = "the (map_of categories ''fotos'')"
  have h1: "''Fotos'' \<noteq> []" by simp
  have h2: "map_of categories (ascii_lower ''Fotos'') = Some ?exts"
    by (simp add: categories_def ascii_lower_def ascii_lower_char_def)
  have h3: "?exts \<noteq> []" by (simp add: categories_def)
  have h4: "records_classified ascii_lower (new_cataloger [])"
    by (simp add: records_classified_def eval_simps)
  note t = type_filter_restricts_candidates
    [where lw = ascii_lower, OF h1 h2 h3, of "new_cataloger []" ?fs "[]" False None]
  have e: "map (\<lambda>r. (path r, category r))
       (all_records (case lookup ?fs [] of
              None \<Rightarrow> new_cataloger []
            | Some t \<Rightarrow>
                scan_files ascii_lower False None [] (new_cataloger [])
                  (filter (passes_filter ascii_lower ?exts) (scan_candidates (new_cataloger []) [] None t))))
     = [([''photo.JPG''], ''fotos'')]"
    by (simp add: eval_simps passes_filter_def)
  from t have t1: "scan_directory ascii_lower (new_cataloger []) ?fs [] False None (Some ''Fotos'')
         = (case lookup ?fs [] of
              None \<Rightarrow> new_cataloger []
            | Some t \<Rightarrow>
                scan_files ascii_lower False None [] (new_cataloger [])
                  (filter (passes_filter ascii_lower ?exts) (scan_candidates (new_cataloger []) [] None t)))"
    by (rule conjunct1)
  from t h4 have t2: "records_classified ascii_lower
      (scan_directory ascii_lower (new_cataloger []) ?fs [] False None (Some ''Fotos''))"
    by blast
  have e': "map (\<lambda>r. (path r, category r))
       (all_records (scan_directory ascii_lower (new_cataloger []) ?fs [] False None (Some ''Fotos'')))
     = [([''photo.JPG''], ''fotos'')]"
    unfolding t1 by (rule e)
  from h1 h2 h3 e' t2 show ?thesis by blast
qed

section \<open>The scanner: exclusions\<close>

lemma excluded_member:
  "D \<in> set (exclude_paths st) \<Longrightarrow> prefix D p \<Longrightarrow> is_path_excluded st p"
  by (auto simp: is_path_excluded_def list_ex_iff)

lemma scan_file_exclude_paths: "exclude_paths (scan_file lw ih tgt st p a) = exclude_paths st"
  by (simp add: scan_file_eq split: sum.splits)

lemma scan_file_clean_of:
  "D \<in> set ex \<Longrightarrow> clean_of ex D s \<Longrightarrow> clean_of ex D (scan_file lw ih tgt s p a)"
  using excluded_member [of D s p]
  by (auto simp: clean_of_def list_all_iff set_all_records_scan_file scan_file_exclude_paths
      new_record_def split: sum.splits)

lemma errors_clean_of: "clean_of ex D s \<Longrightarrow> clean_of ex D (s\<lparr>errors := errors s @ [e]\<rparr>)"
  by (simp add: clean_of_def all_records_def)

lemma depth_walk_parents:
  "\<forall>v \<in> set (map fst (depth_walk st d k root t)). v = root \<or> \<not> is_path_excluded st (butlast v)"
  "\<not> is_path_excluded st root \<Longrightarrow>
   \<forall>v \<in> set (map fst (depth_entries st d k root es)). \<not> is_path_excluded st (butlast v)"
proof (induction st d k root t and st d k root es rule: depth_walk_depth_entries.induct)
  case (1 st directory max_depth root a)
  then show ?case by simp
next
  case (2 st directory max_depth root es)
  then show ?case by auto
next
  case (3 st directory max_depth root)
  then show ?case by simp
next
  case (4 st directory max_depth root n t es)
  then show ?case by auto
qed

text \<open>
  Claim C1 at the failing input: \<open>/x\<close> is excluded, \<open>/x/y/f.txt\<close> exists and \<open>/\<close> is
  scanned without \<open>max_depth\<close>. The branch of \<open>scan_directory\<close> that calls \<open>rglob\<close> has no
  pruning: the whole tree is enumerated, the directory \<open>/x/y\<close> below the excluded \<open>/x\<close>
  is listed, and only the files are dropped one by one. The sibling branch,
  \<open>_get_files_with_depth\<close>, empties \<open>dirs\<close> at an excluded directory and lists nothing
  below \<open>/x\<close> on the same tree.
\<close>

theorem excluded_subtree_visited_unbounded:
  "[''x''] \<in> set (exclude_paths (new_cataloger [[''x'']]))
   \<and> strict_prefix [''x''] [''x'', ''y'']
   \<and> [''x'', ''y''] \<in> set (visited_dirs (new_cataloger [[''x'']])
        (Dir [(''x'', Dir [(''y'', Dir [(''f.txt'', regular_file 1)])])]) [] None)
   \<and> visited_dirs (new_cataloger [[''x'']])
        (Dir [(''x'', Dir [(''y'', Dir [(''f.txt'', regular_file 1)])])]) [] (Some 5)
      = [[], [''x'']]"
  by (simp add: eval_simps)

text \<open>
  A scan with \<open>max_depth\<close> that is started inside an excluded directory lists its start,
  since \<open>os.walk\<close> lists a directory before the loop body tests it, and yields nothing.
\<close>

lemma depth_walk_lists_excluded_start:
  "visited_dirs (new_cataloger [[''x'']])
     (Dir [(''x'', Dir [(''y'', Dir [(''f.txt'', regular_file 1)])])]) [''x'', ''y''] (Some 5)
   = [[''x'', ''y'']]
   \<and> get_files_with_depth (new_cataloger [[''x'']]) [''x'', ''y''] 5
       (Dir [(''f.txt'', regular_file 1)]) = []"
  by (simp add: eval_simps)

text \<open>
  What holds of the exclusions on every input. For every configuration and every
  excluded path \<open>D\<close>, a catalog without records at or below \<open>D\<close> has none after scanning
  any sequence of roots, with or without \<open>max_depth\<close>. With \<open>max_depth\<close> set, the only
  directory strictly below \<open>D\<close> that the traversal can list is its own start.
\<close>

lemma excluded_paths_not_cataloged:
  assumes "D \<in> set (exclude_paths st)"
    and "\<forall>r \<in> set (all_records st). \<not> prefix D (path r)"
  shows "(\<forall>r \<in> set (all_records
            (scan_multiple_volumes lw st fs roots include_hash max_depth file_type_filter)).
            \<not> prefix D (path r))
   \<and> (\<forall>v \<in> set (visited_dirs st fs directory (Some k)). strict_prefix D v \<longrightarrow> v = directory)"
proof
  have "clean_of (exclude_paths st) D st"
    using assms(2) by (simp add: clean_of_def list_all_iff)
  then have "clean_of (exclude_paths st) D
      (scan_multiple_volumes lw st fs roots include_hash max_depth file_type_filter)"
    by (rule scan_multiple_volumes_invariant
        [OF _ scan_file_clean_of [OF assms(1)] errors_clean_of])
  then show "\<forall>r \<in> set (all_records
            (scan_multiple_volumes lw st fs roots include_hash max_depth file_type_filter)).
            \<not> prefix D (path r)"
    by (simp add: clean_of_def list_all_iff)
next
  show "\<forall>v \<in> set (visited_dirs st fs directory (Some k)). strict_prefix D v \<longrightarrow> v = directory"
  proof (intro ballI impI)
    fix v
    assume v: "v \<in> set (visited_dirs st fs directory (Some k))" and sp: "strict_prefix D v"
    show "v = directory"
    proof (rule ccontr)
      assume ne: "v \<noteq> directory"
      from v obtain t where "v \<in> set (map fst (depth_walk st directory k directory t))"
        by (auto simp: visited_dirs_def split: option.splits)
      with depth_walk_parents(1) [of st directory k directory t] ne
      have "\<not> is_path_excluded st (butlast v)" by blast
      moreover from sp have "prefix D (butlast v)"
        by (metis prefix_order.less_le prefix_snoc append_butlast_last_id prefix_bot.extremum_uniqueI strict_prefixE)
      ultimately show False using excluded_member [OF assms(1)] by blast
    qed
  qed
qed


text \<open>The excluded \<open>/x\<close> beside \<open>/k\<close>, scanned from \<open>/\<close> with depth 5.\<close>

lemma excluded_paths_not_cataloged_example:
  "[''x''] \<in> set (exclude_paths (new_cataloger [[''x'']]))
   \<and> all_records (new_cataloger [[''x'']]) = []
   \<and> list_all (\<lambda>r. \<not> prefix [''x''] (path r))
        (all_records (scan_multiple_volumes ascii_lower (new_cataloger [[''x'']])
           (Dir [(''x'', Dir [(''y'', Dir [(''f.txt'', regular_file 1)])]),
                 (''k'', Dir [(''g.txt'', regular_file 2)])])
           [[]] False (Some 5) None))
   \<and> map path (all_records (scan_multiple_volumes ascii_lower (new_cataloger [[''x'']])
           (Dir [(''x'', Dir [(''y'', Dir [(''f.txt'', regular_file 1)])]),
                 (''k'', Dir [(''g.txt'', regular_file 2)])])
           [[]] False (Some 5) None)) = [[''k'', ''g.txt'']]
   \<and> visited_dirs (new_cataloger [[''x'']])
           (Dir [(''x'', Dir [(''y'', Dir [(''f.txt'', regular_file 1)])]),
                 (''k'', Dir [(''g.txt'', regular_file 2)])]) [] (Some 5)
       = [[], [''x''], [''k'']]"
proof -
  let ?st = "new_cataloger [[''x'']]"
  let ?fs = "Dir [(''x'', Dir [(''y'', Dir [(''f.txt'', regular_file 1)])]),
                 (''k'', Dir [(''g.txt'', regular_file 2)])]"
  have h1: "[''x''] \<in> set (exclude_paths ?st)" by (simp add: eval_simps)
  have h0: "all_records ?st = []" by (simp add: eval_simps)
  then have h2: "\<forall>r \<in> set (all_records ?st). \<not> prefix [''x''] (path r)" by simp
  from excluded_paths_not_cataloged [OF h1 h2, of ascii_lower ?fs "[[]]" False "Some 5" None "[]" 5]
  have c: "list_all (\<lambda>r. \<not> prefix [''x''] (path r))
        (all_records (scan_multiple_volumes ascii_lower ?st ?fs [[]] False (Some 5) None))"
    by (simp add: list_all_iff)
  have e1: "map path (all_records (scan_multiple_volumes ascii_lower ?st ?fs [[]] False (Some 5) None))
            = [[''k'', ''g.txt'']]"
    by (simp add: eval_simps)
  have e2: "visited_dirs ?st ?fs [] (Some 5) = [[], [''x''], [''k'']]"
    by (simp add: eval_simps)
  from h1 h0 c e1 e2 show ?thesis by blast
qed

section \<open>The scanner: the depth limit\<close>

text \<open>
  With \<open>max_depth = 0\<close> the test \<open>level >= max_depth\<close> holds at the start of the walk,
  whatever \<open>level\<close> is: only the start is listed and only its own entries are yielded.
\<close>

lemma max_depth_zero_lists_only_the_root:
  "get_files_with_depth st directory 0 (Dir es)
   = (if is_path_excluded st directory then []
      else map (\<lambda>(n, t). (directory @ [n], t)) (filter (\<lambda>(n, t). \<not> is_dir t) es))
   \<and> map fst (depth_walk st directory 0 directory (Dir es)) = [directory]"
  by (simp add: get_files_with_depth_def)

text \<open>
  Claim C9 at the failing input: scanning \<open>/\<close> with \<open>max_depth = 1\<close>. \<open>level\<close> is
  computed as \<open>root.replace(str(directory), '').count(os.sep)\<close>; with \<open>str(directory)\<close>
  equal to \<open>/\<close> every separator is removed, the level of \<open>/x/y\<close> is 0, the walk goes
  on below depth 1 and \<open>/x/y/f.txt\<close> is cataloged.
\<close>

theorem depth_limit_lost_below_root_slash:
  "level_of [] [''x'', ''y''] = 0
   \<and> visited_dirs (new_cataloger [])
        (Dir [(''x'', Dir [(''y'', Dir [(''f.txt'', regular_file 1)])])]) [] (Some 1)
      = [[], [''x''], [''x'', ''y'']]
   \<and> map path (all_records (scan_directory ascii_lower (new_cataloger [])
        (Dir [(''x'', Dir [(''y'', Dir [(''f.txt'', regular_file 1)])])]) [] False (Some 1) None))
      = [[''x'', ''y'', ''f.txt'']]"
  by (simp add: eval_simps)

section \<open>The organizer: duplicate names\<close>

lemma unique_dst_absent: "\<not> path_exists fs dst \<Longrightarrow> unique_dst fs dry d s x dst c = dst"
  by (subst unique_dst.simps) simp

lemma unique_dst_numbered:
  "\<not> dry \<Longrightarrow> path_exists fs dst \<Longrightarrow>
   \<exists>k\<ge>c. unique_dst fs dry d s x dst c = numbered_name d s x k
        \<and> \<not> path_exists fs (numbered_name d s x k)
        \<and> (\<forall>j. c \<le> j \<and> j < k \<longrightarrow> path_exists fs (numbered_name d s x j))"
proof (induction fs dry d s x dst c rule: unique_dst.induct)
  case (1 fs dry d s x dst c)
  have step: "unique_dst fs dry d s x dst c
              = unique_dst fs dry d s x (numbered_name d s x c) (c + 1)"
    using "1.prems" by (subst unique_dst.simps) simp
  show ?case
  proof (cases "path_exists fs (numbered_name d s x c)")
    case True
    from "1.IH" [OF _ "1.prems"(1) True] "1.prems"
    obtain k where k: "c + 1 \<le> k"
      "unique_dst fs dry d s x (numbered_name d s x c) (c + 1) = numbered_name d s x k"
      "\<not> path_exists fs (numbered_name d s x k)"
      "\<forall>j. c + 1 \<le> j \<and> j < k \<longrightarrow> path_exists fs (numbered_name d s x j)"
      by blast
    have "\<forall>j. c \<le> j \<and> j < k \<longrightarrow> path_exists fs (numbered_name d s x j)"
    proof (intro allI impI)
      fix j assume "c \<le> j \<and> j < k"
      then have "j = c \<or> (c + 1 \<le> j \<and> j < k)" by auto
      with True k(4) show "path_exists fs (numbered_name d s x j)" by blast
    qed
    with k step show ?thesis
      by (intro exI [of _ k]) simp
  next
    case False
    then have "unique_dst fs dry d s x dst c = numbered_name d s x c"
      using step by (simp add: unique_dst_absent)
    with False show ?thesis
      by (intro exI [of _ c]) auto
  qed
qed

lemma update_absent: "map_of al k = None \<Longrightarrow> AList.update k v al = al @ [(k, v)]"
  by (induction al) auto

lemma delete_absent_map_of: "k \<noteq> k' \<Longrightarrow> map_of (AList.delete k' al) k = map_of al k"
  by (simp add: delete_conv')

text \<open>
  Claim C5. In real mode, for a source file whose destination \<open>category_dir / name\<close>
  exists (\<open>joinpath\<close>), the organizer relocates it (copy or move, permissions given and no failure
  injected) to \<open>stem_k suffix\<close> for the first \<open>k = 1, 2, ...\<close> whose name does not exist:
  all smaller numbers are taken, and the new table is the old one (less the source, for
  a move) with the one new entry appended, so nothing is overwritten.
\<close>

theorem duplicate_name_gets_first_free_number:
  assumes src: "map_of (nodes fs) (path file_info) = Some (FileEntry content)"
    and taken: "path_exists fs (joinpath category_dir (path_name (path file_info)))"
    and dir_ok: "os_access_w fs category_dir"
    and src_ok: "copy_files \<or> os_access_w fs (path_parent (path file_info))"
    and no_fault: "io_faults fs = []"
  shows "\<exists>k\<ge>1.
     (\<forall>j. 1 \<le> j \<and> j < k \<longrightarrow>
        path_exists fs (numbered_name category_dir (path_stem (path file_info))
                         (path_suffix (path file_info)) j))
     \<and> \<not> path_exists fs (numbered_name category_dir (path_stem (path file_info))
                         (path_suffix (path file_info)) k)
     \<and> organize_file copy_files False category_dir (st, fs) file_info
       = (count_successful st,
          fs\<lparr>nodes := (if copy_files then nodes fs else AList.delete (path file_info) (nodes fs))
                @ [(numbered_name category_dir (path_stem (path file_info))
                      (path_suffix (path file_info)) k, FileEntry content)]\<rparr>)"
proof -
  let ?src = "path file_info"
  let ?nm = "numbered_name category_dir (path_stem ?src) (path_suffix ?src)"
  from unique_dst_numbered [OF _ taken, of False 1 category_dir "path_stem ?src" "path_suffix ?src"]
  obtain k where k: "1 \<le> k"
    "unique_dst fs False category_dir (path_stem ?src) (path_suffix ?src)
       (joinpath category_dir (path_name ?src)) 1 = ?nm k"
    "\<not> path_exists fs (?nm k)"
    "\<forall>j. 1 \<le> j \<and> j < k \<longrightarrow> path_exists fs (?nm j)"
    by blast
  have ex: "path_exists fs ?src" using src by (simp add: path_exists_def)
  have parent: "path_parent (?nm k) = category_dir"
    by (simp add: path_parent_def numbered_name_def)
  have none: "map_of (nodes fs) (?nm k) = None" using k(3) by (simp add: path_exists_def)
  have ne: "?nm k \<noteq> ?src" using none src by auto
  have cp: "copy2 fs ?src (?nm k) = Inr (fs\<lparr>nodes := nodes fs @ [(?nm k, FileEntry content)]\<rparr>)"
    using src none no_fault by (simp add: copy2_def update_absent)
  have mv: "move fs ?src (?nm k)
            = Inr (fs\<lparr>nodes := AList.delete ?src (nodes fs) @ [(?nm k, FileEntry content)]\<rparr>)"
    using src none no_fault ne
    by (simp add: move_def Let_def update_absent delete_absent_map_of)
  have "process_file st fs ?src (?nm k) copy_files
        = (True, st, fs\<lparr>nodes := (if copy_files then nodes fs else AList.delete ?src (nodes fs))
                @ [(?nm k, FileEntry content)]\<rparr>)"
    using dir_ok src_ok parent cp mv by (auto simp: process_file_def)
  then have "organize_file copy_files False category_dir (st, fs) file_info
       = (count_successful st,
          fs\<lparr>nodes := (if copy_files then nodes fs else AList.delete ?src (nodes fs))
                @ [(?nm k, FileEntry content)]\<rparr>)"
    using ex k(2) by (simp add: organize_file_def Let_def)
  with k show ?thesis by blast
qed

lemmas org_simps =
  two_sources_def two_records_def record_of_def new_record_def new_cataloger_def
  init_cataloger_def load_folder_exclusions_def zero_operation_stats_def
  organize_files_def organize_category_def organize_file_def process_file_def
  mkdir_def copy2_def move_def path_exists_def os_access_w_def
  count_successful_def count_failed_def catalog_get_def catalog_touch_def
  numbered_name_def str_nat.simps digit_char_def unique_dst.simps joinpath_def
  path_parent_def path_stem_def name_stem_def
  path_suffix_def path_name_def name_suffix_def rfind_def ascii_lower_def ascii_lower_char_def
  categorize_file_def categories_def get_file_hash_def Let_def

text \<open>
  Organizing the two sources named \<open>a.txt\<close> into \<open>/D\<close> (copy, real mode) adds
  \<open>a.txt\<close> with the first content and \<open>a_1.txt\<close> with the second.
\<close>

lemma two_sources_organized:
  "nodes (snd (organize_files ascii_lower two_records two_sources [''D''] True False None None))
   = nodes two_sources @
     [([''D''], DirEntry), ([''D'', ''documents''], DirEntry),
      ([''D'', ''documents'', ''a.txt''], FileEntry ''first''),
      ([''D'', ''documents'', ''a_1.txt''], FileEntry ''second'')]"
  by (simp add: org_simps)


text \<open>C5 at the second source, once the first is copied; and the whole call.\<close>

theorem duplicate_name_gets_first_free_number_witness:
  "map_of (nodes first_copied) (path (record_of [''s2'', ''a.txt''])) = Some (FileEntry ''second'')
   \<and> path_exists first_copied
        (joinpath [''D'', ''documents''] (path_name (path (record_of [''s2'', ''a.txt'']))))
   \<and> os_access_w first_copied [''D'', ''documents'']
   \<and> io_faults first_copied = []
   \<and> organize_file True False [''D'', ''documents''] (two_records, first_copied)
        (record_of [''s2'', ''a.txt''])
      = (count_successful two_records,
         first_copied\<lparr>nodes := nodes first_copied @
            [([''D'', ''documents'', ''a_1.txt''], FileEntry ''second'')]\<rparr>)
   \<and> nodes (snd (organize_files ascii_lower two_records two_sources [''D''] True False None None))
      = nodes two_sources @
        [([''D''], DirEntry), ([''D'', ''documents''], DirEntry),
         ([''D'', ''documents'', ''a.txt''], FileEntry ''first''),
         ([''D'', ''documents'', ''a_1.txt''], FileEntry ''second'')]"
proof -
  let ?fi = "record_of [''s2'', ''a.txt'']"
  let ?d = "[''D'', ''documents'']"
  let ?nm = "numbered_name ?d (path_stem (path ?fi)) (path_suffix (path ?fi))"
  have h1: "map_of (nodes first_copied) (path ?fi) = Some (FileEntry ''second'')"
    by (simp add: first_copied_def org_simps)
  have h2: "path_exists first_copied (joinpath ?d (path_name (path ?fi)))"
    by (simp add: first_copied_def org_simps)
  have h3: "os_access_w first_copied ?d"
    by (simp add: first_copied_def org_simps)
  have h4: "True \<or> os_access_w first_copied (path_parent (path ?fi))" by simp
  have h5: "io_faults first_copied = []"
    by (simp add: first_copied_def org_simps)
  have free: "\<not> path_exists first_copied (?nm 1)"
    by (simp add: first_copied_def org_simps)
  have nm1: "?nm 1 = [''D'', ''documents'', ''a_1.txt'']"
    by (simp add: org_simps)
  from duplicate_name_gets_first_free_number [OF h1 h2 h3 h4 h5, of two_records]
  obtain k where k: "1 \<le> k"
    "\<forall>j. 1 \<le> j \<and> j < k \<longrightarrow> path_exists first_copied (?nm j)"
    "organize_file True False ?d (two_records, first_copied) ?fi
       = (count_successful two_records,
          first_copied\<lparr>nodes := (if True then nodes first_copied
                                  else AList.delete (path ?fi) (nodes first_copied))
                @ [(?nm k, FileEntry ''second'')]\<rparr>)"
    by blast
  have "k = 1"
  proof (rule ccontr)
    assume "k \<noteq> 1"
    with k(1) have "1 \<le> (1::nat) \<and> 1 < k" by simp
    with k(2) have "path_exists first_copied (?nm 1)" by blast
    with free show False by simp
  qed
  with k(3) nm1 have c: "organize_file True False ?d (two_records, first_copied) ?fi
      = (count_successful two_records,
         first_copied\<lparr>nodes := nodes first_copied @
            [([''D'', ''documents'', ''a_1.txt''], FileEntry ''second'')]\<rparr>)"
    by simp
  from h1 h2 h3 h5 c two_sources_organized show ?thesis by blast
qed

section \<open>The organizer: a destination directory that cannot be created\<close>

text \<open>
  Claim C6 as stated fails in its last part: when \<open>mkdir\<close> fails for the only category,
  with two files, the counters stay at 0; no file is counted as failed or skipped.
\<close>

theorem mkdir_failure_counts_nothing:
  "mkdir readonly_target [''D'', ''documents''] = Inl PermissionError
   \<and> map length (map snd (catalog two_records)) = [2]
   \<and> operation_stats (fst (organize_files ascii_lower two_records readonly_target [''D''] True False None None))
      = \<lparr>successful_operations = 0, failed_operations = 0, skipped_operations = 0\<rparr>"
  by (simp add: readonly_target_def org_simps)

text \<open>
  Claim C6, amended. In real mode, when creating the destination directory of a
  category fails, the only effect is one entry appended to \<open>self.errors\<close> (the permission
  message for \<open>PermissionError\<close>, the system message for any other \<open>OSError\<close>): the file
  system is unchanged, so no file operation was attempted, and the counters are
  unchanged, so none of the files is counted.
\<close>

theorem mkdir_failure_skips_category:
  assumes "files \<noteq> []"
    and "mkdir fs (if move_to_dir \<noteq> None then base_path else base_path @ [cat]) = Inl e"
  shows "organize_category copy_files False move_to_dir base_path (st, fs) (cat, files)
         = (st\<lparr>errors := errors st @
               [if e = PermissionError
                then ErrMkdirPermission
                       (if move_to_dir \<noteq> None then base_path else base_path @ [cat]) e
                else ErrMkdirSystem
                       (if move_to_dir \<noteq> None then base_path else base_path @ [cat]) e]\<rparr>,
            fs)"
  using assms by (cases e) (auto simp: organize_category_def Let_def)

text \<open>The category \<open>documents\<close> under the read-only \<open>/D\<close>.\<close>

theorem mkdir_failure_skips_category_witness:
  "[record_of [''s1'', ''a.txt''], record_of [''s2'', ''a.txt'']] \<noteq> []
   \<and> mkdir readonly_target (if (None :: path option) \<noteq> None then [''D''] else [''D''] @ [''documents''])
      = Inl PermissionError
   \<and> organize_category True False None [''D''] (two_records, readonly_target)
        (''documents'', [record_of [''s1'', ''a.txt''], record_of [''s2'', ''a.txt'']])
      = (two_records\<lparr>errors := errors two_records @
            [ErrMkdirPermission [''D'', ''documents''] PermissionError]\<rparr>,
         readonly_target)"
proof -
  have h1: "[record_of [''s1'', ''a.txt''], record_of [''s2'', ''a.txt'']] \<noteq> []" by simp
  have h2: "mkdir readonly_target
              (if (None :: path option) \<noteq> None then [''D''] else [''D''] @ [''documents''])
            = Inl PermissionError"
    by (simp add: readonly_target_def org_simps)
  from mkdir_failure_skips_category [OF h1 h2, of True two_records] h1 h2
  show ?thesis by simp
qed

end
